theory Spec2Isabelle
  imports Complex_Main "HOL-Library.Multiset" "HOL-Library.Sublist"
begin

section \<open>Strings\<close>

text \<open>
  JavaScript strings are modelled as \<^typ>\<open>string\<close> (lists of 8-bit characters), so the
  development covers ASCII text. \<open>toLowerCase\<close> maps \<open>A..Z\<close> to \<open>a..z\<close> and leaves every
  other character alone.
\<close>

definition lowerChar :: "char \<Rightarrow> char" where
  "lowerChar c =
     (let n = (of_char c :: nat) in if 65 \<le> n \<and> n \<le> 90 then char_of (n + 32) else c)"

definition toLowerCase :: "string \<Rightarrow> string" where
  "toLowerCase s = map lowerChar s"

text \<open>The character class \<open>[a-z0-9]\<close> of the tokenizer's regular expression.\<close>

definition isAlnum :: "char \<Rightarrow> bool" where
  "isAlnum c =
     (let n = (of_char c :: nat) in (97 \<le> n \<and> n \<le> 122) \<or> (48 \<le> n \<and> n \<le> 57))"

text \<open>\<open>s.startsWith(t)\<close>, \<open>s.includes(t)\<close> and \<open>s.endsWith(t)\<close>.\<close>

fun startsWith :: "string \<Rightarrow> string \<Rightarrow> bool" where
  "startsWith s [] = True"
| "startsWith [] (c # t) = False"
| "startsWith (x # s) (c # t) = (x = c \<and> startsWith s t)"

fun includesStr :: "string \<Rightarrow> string \<Rightarrow> bool" where
  "includesStr [] t = startsWith [] t"
| "includesStr (x # s) t = (startsWith (x # s) t \<or> includesStr s t)"

definition endsWith :: "string \<Rightarrow> string \<Rightarrow> bool" where
  "endsWith s t = startsWith (rev s) (rev t)"

text \<open>
  \<open>raw.split(/[^a-z0-9]+/)\<close>: the fields between maximal runs of separator characters.
  The flag says whether the scan is inside a separator run; \<open>cur\<close> is the field read so
  far. A leading or trailing separator run yields an empty field, and the empty string
  yields one empty field, as in JavaScript.
\<close>

fun splitFrom :: "bool \<Rightarrow> string \<Rightarrow> string \<Rightarrow> string list" where
  "splitFrom sep cur [] = [cur]"
| "splitFrom sep cur (c # cs) =
     (if isAlnum c then splitFrom False (cur @ [c]) cs
      else if sep then splitFrom True cur cs
      else cur # splitFrom True [] cs)"

definition splitNonAlnum :: "string \<Rightarrow> string list" where
  "splitNonAlnum raw = splitFrom False [] raw"

section \<open>Tokenizer\<close>

definition STOPWORDS :: "string list" where
  "STOPWORDS =
     [''a'', ''an'', ''the'', ''and'', ''or'', ''but'', ''if'', ''then'', ''else'', ''when'',
      ''what'', ''which'', ''who'', ''whom'', ''this'', ''that'', ''those'', ''these'', ''is'',
      ''are'', ''was'', ''were'', ''be'', ''been'', ''being'', ''am'', ''do'', ''does'', ''did'',
      ''doing'', ''have'', ''has'', ''had'', ''having'', ''can'', ''could'', ''should'',
      ''would'', ''may'', ''might'', ''must'', ''will'', ''shall'', ''i'', ''you'', ''he'',
      ''she'', ''it'', ''we'', ''they'', ''me'', ''him'', ''her'', ''us'', ''them'', ''my'',
      ''your'', ''our'', ''their'', ''to'', ''from'', ''in'', ''on'', ''at'', ''for'', ''of'',
      ''by'', ''with'', ''as'', ''about'', ''into'', ''over'', ''after'', ''before'', ''up'',
      ''down'', ''out'', ''off'', ''again'', ''further'', ''then'', ''once'', ''here'',
      ''there'', ''why'', ''how'', ''hey'', ''please'', ''share'', ''send'', ''latest'',
      ''new'', ''newest'']"

text \<open>\<open>t.endsWith('s') ? t.slice(0, -1) : t\<close>\<close>

definition singular :: "string \<Rightarrow> string" where
  "singular t = (if endsWith t ''s'' then butlast t else t)"

definition keepToken :: "string \<Rightarrow> bool" where
  "keepToken t = (3 \<le> length t \<and> t \<notin> set STOPWORDS)"

text \<open>\<open>all\<close> of the source: the raw words, empty fields removed by \<open>filter(Boolean)\<close>.\<close>

definition rawWords :: "string \<Rightarrow> string list" where
  "rawWords queryText = filter (\<lambda>w. w \<noteq> []) (splitNonAlnum (toLowerCase queryText))"

definition normalizeAndTokenize :: "string \<Rightarrow> string list" where
  "normalizeAndTokenize queryText =
     (let all = rawWords queryText;
          tokens = filter keepToken (map singular all)
      in if tokens \<noteq> [] then tokens else all)"

section \<open>File records\<close>

text \<open>
  A row of the \<open>files\<close> table, with the columns the retrieval path reads. A column that
  is \<open>null\<close> or missing is \<open>None\<close>. The \<open>tags\<close> column holds an array, a text or
  nothing.
\<close>

datatype tagsval = TagsNull | TagsArray "string list" | TagsText string

record fileRow =
  file_name :: "string option"
  name :: "string option"
  project :: "string option"
  tags :: tagsval
  tags_text :: "string option"
  description :: "string option"
  file_url :: "string option"
  privacy :: "string option"
  allowed_user_emails :: "string list option"

text \<open>
  JavaScript truthiness of a nullable string: \<open>null\<close>, \<open>undefined\<close> and the empty string
  are falsy. \<open>strOr a d\<close> is \<open>a || d\<close>.
\<close>

definition truthy :: "string option \<Rightarrow> bool" where
  "truthy a = (case a of None \<Rightarrow> False | Some s \<Rightarrow> s \<noteq> [])"

definition strOr :: "string option \<Rightarrow> string \<Rightarrow> string" where
  "strOr a d = (case a of None \<Rightarrow> d | Some s \<Rightarrow> if s \<noteq> [] then s else d)"

text \<open>\<open>xs.join(sep)\<close>\<close>

fun joinWith :: "string \<Rightarrow> string list \<Rightarrow> string" where
  "joinWith sep [] = []"
| "joinWith sep [x] = x"
| "joinWith sep (x # y # ys) = x @ sep @ joinWith sep (y # ys)"

section \<open>Sorting\<close>

text \<open>
  \<open>Array.prototype.sort(cmp)\<close> is a stable sort (ECMAScript 2019; the sources use
  optional chaining and \<open>??\<close>, so the engine is later than that). It is modelled as the
  stable insertion sort: \<open>x\<close> goes before the first \<open>y\<close> with \<open>cmp x y \<le> 0\<close>.
\<close>

fun insertBy :: "('a \<Rightarrow> 'a \<Rightarrow> 'b::{zero,ord}) \<Rightarrow> 'a \<Rightarrow> 'a list \<Rightarrow> 'a list" where
  "insertBy cmp x [] = [x]"
| "insertBy cmp x (y # ys) = (if cmp x y \<le> 0 then x # y # ys else y # insertBy cmp x ys)"

definition jsSort :: "('a \<Rightarrow> 'a \<Rightarrow> 'b::{zero,ord}) \<Rightarrow> 'a list \<Rightarrow> 'a list" where
  "jsSort cmp xs = foldr (insertBy cmp) xs []"

section \<open>Heuristic scorer\<close>

record scored =
  row :: fileRow
  score :: nat

definition rowName :: "fileRow \<Rightarrow> string" where
  "rowName r = toLowerCase (strOr (file_name r) (strOr (name r) []))"

definition rowProject :: "fileRow \<Rightarrow> string" where
  "rowProject r = toLowerCase (strOr (project r) [])"

definition rowTagsStr :: "fileRow \<Rightarrow> string" where
  "rowTagsStr r =
     (case tags r of
        TagsArray xs \<Rightarrow> toLowerCase (joinWith '' '' xs)
      | TagsText s \<Rightarrow> toLowerCase (if s \<noteq> [] then s else strOr (tags_text r) [])
      | TagsNull \<Rightarrow> toLowerCase (strOr (tags_text r) []))"

definition rowDesc :: "fileRow \<Rightarrow> string" where
  "rowDesc r = toLowerCase (strOr (description r) [])"

text \<open>The body of the loop over the tokens: the new value of \<open>score\<close>.\<close>

definition scoreStep :: "fileRow \<Rightarrow> string \<Rightarrow> nat \<Rightarrow> nat" where
  "scoreStep r t s =
     (if t = [] then s
      else
        (let s1 = (if includesStr (rowName r) t then s + 8 else s);
             s2 = (if startsWith (rowName r) t then s1 + 4 else s1);
             s3 = (if includesStr (rowProject r) t then s2 + 3 else s2);
             s4 = (if includesStr (rowTagsStr r) t then s3 + 3 else s3);
             s5 = (if includesStr (rowDesc r) t then s4 + 2 else s4)
         in s5))"

definition scoreRow :: "string list \<Rightarrow> fileRow \<Rightarrow> nat" where
  "scoreRow tokens r = fold (scoreStep r) tokens 0"

definition scoreList :: "string list \<Rightarrow> fileRow list \<Rightarrow> scored list" where
  "scoreList tokens arr = map (\<lambda>r. \<lparr>row = r, score = scoreRow tokens r\<rparr>) arr"

definition positive :: "scored list \<Rightarrow> scored list" where
  "positive xs = filter (\<lambda>x. 0 < score x) xs"

text \<open>\<open>(a, b) => b.score - a.score\<close>\<close>

definition cmpScore :: "scored \<Rightarrow> scored \<Rightarrow> int" where
  "cmpScore a b = int (score b) - int (score a)"

text \<open>The ranking step: \<open>positives.sort(...).map(x => x.row)\<close>.\<close>

definition rankRows :: "scored list \<Rightarrow> fileRow list" where
  "rankRows positives = map row (jsSort cmpScore positives)"

section \<open>Record store and tiered search\<close>

text \<open>
  The record store is an external collaborator. A query is one of the three the source
  builds (each ordered by \<open>uploaded_at\<close> descending and limited to 200 rows by the store);
  the store answers with the \<open>{ data, error }\<close> object of the client library. The model
  returns, next to the result, the queries issued, in order.
\<close>

datatype storeError = StoreError string

datatype query =
    QFiltered string string
  | QScoped string
  | QLegacy

record response =
  err :: "storeError option"
  data :: "fileRow list option"

type_synonym store = "query \<Rightarrow> response"

text \<open>\<open>resp.data ?? []\<close>\<close>

definition dataOrEmpty :: "response \<Rightarrow> fileRow list" where
  "dataOrEmpty resp = (case data resp of None \<Rightarrow> [] | Some rs \<Rightarrow> rs)"

text \<open>\<open>(a, b) => b.length - a.length\<close>\<close>

definition cmpLength :: "string \<Rightarrow> string \<Rightarrow> int" where
  "cmpLength a b = int (length b) - int (length a)"

text \<open>\<open>tokens.slice().sort(...)[0] || ''\<close>\<close>

definition primaryToken :: "string list \<Rightarrow> string" where
  "primaryToken tokens = (case jsSort cmpLength tokens of [] \<Rightarrow> [] | t # _ \<Rightarrow> t)"

text \<open>Step 1: the filtered query, issued only when there is a primary token.\<close>

definition fetchFiltered :: "store \<Rightarrow> string \<Rightarrow> string \<Rightarrow> query list \<times> (storeError + fileRow list)" where
  "fetchFiltered st primary workspaceId =
     (if primary \<noteq> [] then
        (let filtered = st (QFiltered primary workspaceId) in
         case err filtered of
           Some e \<Rightarrow> ([QFiltered primary workspaceId], Inl e)
         | None \<Rightarrow> ([QFiltered primary workspaceId], Inr (dataOrEmpty filtered)))
      else ([], Inr []))"

text \<open>Step 2: the recent rows of the workspace, when step 1 left \<open>rows\<close> empty.\<close>

definition fetchScoped :: "store \<Rightarrow> string \<Rightarrow> fileRow list \<Rightarrow> query list \<times> (storeError + fileRow list)" where
  "fetchScoped st workspaceId rows =
     (if rows = [] then
        (let scoped = st (QScoped workspaceId) in
         case err scoped of
           Some e \<Rightarrow> ([QScoped workspaceId], Inl e)
         | None \<Rightarrow> ([QScoped workspaceId], Inr (dataOrEmpty scoped)))
      else ([], Inr rows))"

text \<open>Steps 1 and 2 together: the tenant-scoped candidate set.\<close>

definition fetchTenant :: "store \<Rightarrow> string list \<Rightarrow> string \<Rightarrow> query list \<times> (storeError + fileRow list)" where
  "fetchTenant st tokens workspaceId =
     (case fetchFiltered st (primaryToken tokens) workspaceId of
        (tr1, Inl e) \<Rightarrow> (tr1, Inl e)
      | (tr1, Inr rows1) \<Rightarrow>
          (case fetchScoped st workspaceId rows1 of
             (tr2, res) \<Rightarrow> (tr1 @ tr2, res)))"

text \<open>Step 3: the unscoped query, issued only when no tenant-scoped row scored.\<close>

definition fetchLegacy :: "store \<Rightarrow> string list \<Rightarrow> scored list \<Rightarrow> query list \<times> (storeError + scored list)" where
  "fetchLegacy st tokens scoredPrimary =
     (if scoredPrimary = [] then
        (let legacy = st QLegacy in
         case err legacy of
           Some e \<Rightarrow> ([QLegacy], Inl e)
         | None \<Rightarrow> ([QLegacy], Inr (positive (scoreList tokens (dataOrEmpty legacy)))))
      else ([], Inr []))"

definition searchFiles :: "store \<Rightarrow> string \<Rightarrow> string \<Rightarrow> nat \<Rightarrow> query list \<times> (storeError + fileRow list)" where
  "searchFiles st queryText workspaceId limit =
     (let tokens = normalizeAndTokenize queryText in
      case fetchTenant st tokens workspaceId of
        (tr12, Inl e) \<Rightarrow> (tr12, Inl e)
      | (tr12, Inr rows) \<Rightarrow>
          (let scoredPrimary = positive (scoreList tokens rows) in
           case fetchLegacy st tokens scoredPrimary of
             (tr3, Inl e) \<Rightarrow> (tr12 @ tr3, Inl e)
           | (tr3, Inr scoredLegacy) \<Rightarrow>
               (let positives = (if scoredPrimary \<noteq> [] then scoredPrimary else scoredLegacy) in
                if positives = [] then (tr12 @ tr3, Inr [])
                else (tr12 @ tr3, Inr (take limit (rankRows positives))))))"

section \<open>Access filter\<close>

text \<open>
  The filter of the message handler. \<open>userEmail\<close> is the address resolved from the
  profile, \<open>None\<close> when the profile has none.
\<close>

definition canAccess :: "string option \<Rightarrow> fileRow \<Rightarrow> bool" where
  "canAccess userEmail f =
     (if \<not> truthy (privacy f) then True
      else if privacy f = Some ''public'' then True
      else if privacy f = Some ''company'' then True
      else
        (let allowed = map toLowerCase
               (case allowed_user_emails f of None \<Rightarrow> [] | Some es \<Rightarrow> es)
         in case userEmail of
              None \<Rightarrow> False
            | Some e \<Rightarrow> e \<noteq> [] \<and> toLowerCase e \<in> set allowed))"

definition accessible :: "string option \<Rightarrow> fileRow list \<Rightarrow> fileRow list" where
  "accessible userEmail results = filter (canAccess userEmail) results"

section \<open>Semantic reranker\<close>

text \<open>
  A parsed JSON value. Numbers are rationals (every finite double is one). Reading a
  property of a value that is not an object, or a key that is not there, gives
  \<open>undefined\<close> (\<open>None\<close>); of two equal keys \<open>JSON.parse\<close> keeps the last.
\<close>

datatype json =
    JNull
  | JBool bool
  | JNum rat
  | JStr string
  | JArr "json list"
  | JObj "(string \<times> json) list"

definition jsonGet :: "json \<Rightarrow> string \<Rightarrow> json option" where
  "jsonGet v k = (case v of JObj kvs \<Rightarrow> map_of (rev kvs) k | _ \<Rightarrow> None)"

definition jsTruthy :: "json \<Rightarrow> bool" where
  "jsTruthy v =
     (case v of
        JNull \<Rightarrow> False
      | JBool b \<Rightarrow> b
      | JNum q \<Rightarrow> q \<noteq> 0
      | JStr s \<Rightarrow> s \<noteq> []
      | JArr _ \<Rightarrow> True
      | JObj _ \<Rightarrow> True)"

datatype serviceError = ServiceError string

text \<open>
  The \<open>try\<close> block. Its input is the outcome of \<open>JSON.parse(text)\<close>: \<open>None\<close> when the
  call throws. Reading \<open>parsed.ranked\<close> of \<open>null\<close> throws as well. The result is \<open>None\<close>
  when the \<open>catch\<close> branch is taken.
\<close>

definition rankedOf :: "json option \<Rightarrow> json list option" where
  "rankedOf parsed =
     (case parsed of
        None \<Rightarrow> None
      | Some JNull \<Rightarrow> None
      | Some v \<Rightarrow>
          (case jsonGet v ''ranked'' of
             Some (JArr xs) \<Rightarrow> Some xs
           | _ \<Rightarrow> Some []))"

text \<open>\<open>r && typeof r.index === 'number'\<close>\<close>

definition hasIndex :: "json \<Rightarrow> bool" where
  "hasIndex r =
     (jsTruthy r \<and> (case jsonGet r ''index'' of Some (JNum _) \<Rightarrow> True | _ \<Rightarrow> False))"

definition entryIndex :: "json \<Rightarrow> rat" where
  "entryIndex r = (case jsonGet r ''index'' of Some (JNum q) \<Rightarrow> q | _ \<Rightarrow> 0)"

text \<open>
  \<open>r.score ?? 0\<close>. A score that is neither a number nor missing is read as 0 here;
  JavaScript would coerce it, which bears on the order of the ranked entries only.
\<close>

definition entryScore :: "json \<Rightarrow> rat" where
  "entryScore r = (case jsonGet r ''score'' of Some (JNum q) \<Rightarrow> q | _ \<Rightarrow> 0)"

definition cmpEntry :: "json \<Rightarrow> json \<Rightarrow> rat" where
  "cmpEntry a b = entryScore b - entryScore a"

text \<open>\<open>Array.from(new Set(order))\<close>: a set keeps the first insertion of a value.\<close>

fun addAll :: "'a list \<Rightarrow> 'a list \<Rightarrow> 'a list" where
  "addAll seen [] = seen"
| "addAll seen (x # xs) = addAll (if x \<in> set seen then seen else seen @ [x]) xs"

text \<open>
  \<open>candidates[i]\<close> for a number \<open>i\<close>: the element when \<open>i\<close> is an integer in range,
  \<open>undefined\<close> (\<open>None\<close>) otherwise.
\<close>

definition candAt :: "'a list \<Rightarrow> rat \<Rightarrow> 'a option" where
  "candAt candidates i =
     (if of_int \<lfloor>i\<rfloor> = i \<and> 0 \<le> i \<and> i < of_nat (length candidates)
      then Some (candidates ! nat \<lfloor>i\<rfloor>) else None)"

definition rankOrder :: "json list \<Rightarrow> rat list" where
  "rankOrder ranked = map entryIndex (jsSort cmpEntry (filter hasIndex ranked))"

definition uniqueOf :: "nat \<Rightarrow> rat list \<Rightarrow> rat list" where
  "uniqueOf n order = filter (\<lambda>i. 0 \<le> i \<and> i < of_nat n) (addAll [] order)"

text \<open>The loop that appends the candidates whose position is not in \<open>unique\<close>.\<close>

definition missing :: "'a list \<Rightarrow> rat list \<Rightarrow> 'a option list" where
  "missing candidates unique =
     map (\<lambda>i. Some (candidates ! i))
       (filter (\<lambda>i. of_nat i \<notin> set unique) [0 ..< length candidates])"

definition reorder :: "'a list \<Rightarrow> json list \<Rightarrow> 'a option list" where
  "reorder candidates ranked =
     (let unique = uniqueOf (length candidates) (rankOrder ranked)
      in map (candAt candidates) unique @ missing candidates unique)"

text \<open>
  \<open>hasClient\<close> says whether the credential is configured. \<open>res\<close> is the outcome of the
  request: a failure of the call, or the outcome of \<open>JSON.parse\<close> on the trimmed reply
  text. The elements of the result are records or \<open>undefined\<close>.
\<close>

definition rerankFilesWithAI ::
  "bool \<Rightarrow> (serviceError + json option) \<Rightarrow> fileRow list \<Rightarrow> nat \<Rightarrow> serviceError + fileRow option list" where
  "rerankFilesWithAI hasClient res candidates topK =
     (if \<not> hasClient then Inr (map Some candidates)
      else if candidates = [] then Inr (map Some candidates)
      else
        (case res of
           Inl e \<Rightarrow> Inl e
         | Inr parsed \<Rightarrow>
             (case rankedOf parsed of
                None \<Rightarrow> Inr (map Some candidates)
              | Some ranked \<Rightarrow> Inr (take topK (reorder candidates ranked)))))"

section \<open>The access rule as the specification words it\<close>

text \<open>
  A record is unclassified when its \<open>privacy\<close> is missing or empty, and a requester
  email is supplied when it is present and not empty. The permitted-email set of a record
  is its \<open>allowed_user_emails\<close>, empty when the column is missing. Two addresses are equal
  without regard to case when their lower-case forms are equal.
\<close>

definition unclassified :: "fileRow \<Rightarrow> bool" where
  "unclassified f = (privacy f = None \<or> privacy f = Some [])"

definition openRecord :: "fileRow \<Rightarrow> bool" where
  "openRecord f =
     (unclassified f \<or> privacy f = Some ''public'' \<or> privacy f = Some ''company'')"

definition permittedEmails :: "fileRow \<Rightarrow> string list" where
  "permittedEmails f = (case allowed_user_emails f of None \<Rightarrow> [] | Some es \<Rightarrow> es)"

definition sameEmail :: "string \<Rightarrow> string \<Rightarrow> bool" where
  "sameEmail a b = (toLowerCase a = toLowerCase b)"

definition emailPermitted :: "string option \<Rightarrow> fileRow \<Rightarrow> bool" where
  "emailPermitted requesterEmail f =
     (case requesterEmail of
        None \<Rightarrow> False
      | Some e \<Rightarrow> e \<noteq> [] \<and> list_ex (sameEmail e) (permittedEmails f))"

definition passesRule :: "string option \<Rightarrow> fileRow \<Rightarrow> bool" where
  "passesRule requesterEmail f = (openRecord f \<or> emailPermitted requesterEmail f)"

section \<open>A usable ranked array\<close>

text \<open>
  The \<open>ranked\<close> array of a parsed reply, empty when the reply has none, and its usable
  entries for \<open>n\<close> candidates: those with a numeric \<open>index\<close> from 0 up to, not including,
  \<open>n\<close>.
\<close>

definition rankedArray :: "json \<Rightarrow> json list" where
  "rankedArray v = (case jsonGet v ''ranked'' of Some (JArr xs) \<Rightarrow> xs | _ \<Rightarrow> [])"

definition usableEntries :: "nat \<Rightarrow> json \<Rightarrow> json list" where
  "usableEntries n v =
     filter (\<lambda>r. hasIndex r \<and> 0 \<le> entryIndex r \<and> entryIndex r < of_nat n) (rankedArray v)"

section \<open>Example data\<close>

definition blankRow :: fileRow where
  "blankRow =
     \<lparr>file_name = None, name = None, project = None, tags = TagsNull, tags_text = None,
      description = None, file_url = None, privacy = None, allowed_user_emails = None\<rparr>"

definition orcaRow :: fileRow where
  "orcaRow = blankRow\<lparr>file_name := Some ''ORCA Dashboard Mockup v2'', tags := TagsArray []\<rparr>"

definition okResponse :: "fileRow list \<Rightarrow> response" where
  "okResponse rs = \<lparr>err = None, data = Some rs\<rparr>"

text \<open>A store whose workspaces all hold the one record, and one that holds it only
  outside any workspace.\<close>

definition orcaStore :: store where
  "orcaStore q = (case q of QLegacy \<Rightarrow> okResponse [] | _ \<Rightarrow> okResponse [orcaRow])"

definition legacyStore :: store where
  "legacyStore q = (case q of QLegacy \<Rightarrow> okResponse [orcaRow] | _ \<Rightarrow> okResponse [])"

definition rowA :: fileRow where
  "rowA = blankRow\<lparr>file_name := Some ''a''\<rparr>"

definition rowB :: fileRow where
  "rowB = blankRow\<lparr>file_name := Some ''b''\<rparr>"

definition rowC :: fileRow where
  "rowC = blankRow\<lparr>file_name := Some ''c''\<rparr>"

text \<open>The reply \<^verbatim>\<open>{"ranked": [{"index": 0.5, "score": 1}]}\<close>, parsed.\<close>

definition fractionReply :: json where
  "fractionReply =
     JObj [(''ranked'', JArr [JObj [(''index'', JNum (1 / 2)), (''score'', JNum 1)]])]"

text \<open>A company-wide record and two restricted ones.\<close>

definition companyRow :: fileRow where
  "companyRow = blankRow\<lparr>file_name := Some ''handbook'', privacy := Some ''company''\<rparr>"

definition annRow :: fileRow where
  "annRow = blankRow\<lparr>file_name := Some ''ann'', privacy := Some ''private'',
     allowed_user_emails := Some [''ann@example.com'']\<rparr>"

definition bobRow :: fileRow where
  "bobRow = blankRow\<lparr>file_name := Some ''bob'', privacy := Some ''private'',
     allowed_user_emails := Some [''bob@example.com'']\<rparr>"

section \<open>The scorer is additive over the tokens\<close>

lemma scoreStep_acc: "scoreStep r t s = s + scoreStep r t 0"
  by (simp add: scoreStep_def Let_def)

lemma fold_scoreStep_acc: "fold (scoreStep r) ts s = s + fold (scoreStep r) ts 0"
proof (induction ts arbitrary: s)
  case Nil
  show ?case by simp
next
  case (Cons t ts)
  have "fold (scoreStep r) (t # ts) s = fold (scoreStep r) ts (scoreStep r t s)" by simp
  also have "\<dots> = scoreStep r t s + fold (scoreStep r) ts 0" by (rule Cons.IH)
  also have "\<dots> = s + (scoreStep r t 0 + fold (scoreStep r) ts 0)"
    using scoreStep_acc [of r t s] by simp
  also have "scoreStep r t 0 + fold (scoreStep r) ts 0 = fold (scoreStep r) ts (scoreStep r t 0)"
    by (rule Cons.IH [symmetric])
  finally show ?case by simp
qed

text \<open>
  Claim C10. The score of a record against the tokens \<open>A\<close> followed by the tokens \<open>B\<close>
  is its score against \<open>A\<close> plus its score against \<open>B\<close>.
\<close>

theorem score_additive: "scoreRow (A @ B) r = scoreRow A r + scoreRow B r"
proof -
  have "scoreRow (A @ B) r = fold (scoreStep r) B (fold (scoreStep r) A 0)"
    by (simp add: scoreRow_def)
  also have "\<dots> = fold (scoreStep r) A 0 + fold (scoreStep r) B 0"
    by (rule fold_scoreStep_acc)
  finally show ?thesis by (simp add: scoreRow_def)
qed

section \<open>The ranking step\<close>

lemma mset_insertBy: "mset (insertBy cmp x ys) = add_mset x (mset ys)"
  by (induction ys) auto

lemma mset_jsSort: "mset (jsSort cmp xs) = mset xs"
  by (induction xs) (auto simp: jsSort_def mset_insertBy)

lemma set_jsSort: "set (jsSort cmp xs) = set xs"
  using mset_jsSort [of cmp xs] by (metis set_mset_mset)

lemma set_insertBy: "set (insertBy cmp x ys) = insert x (set ys)"
  using mset_insertBy [of cmp x ys] by (metis set_mset_mset set_mset_add_mset_insert)

lemma sorted_insertBy_score:
  "sorted_wrt (\<lambda>a b. score b \<le> score a) ys \<Longrightarrow>
   sorted_wrt (\<lambda>a b. score b \<le> score a) (insertBy cmpScore x ys)"
proof (induction ys)
  case Nil
  show ?case by simp
next
  case (Cons y ys)
  show ?case
  proof (cases "cmpScore x y \<le> 0")
    case True
    then have "score y \<le> score x" by (simp add: cmpScore_def)
    with Cons.prems True show ?thesis by auto
  next
    case False
    then have "score x \<le> score y" by (simp add: cmpScore_def)
    with Cons False show ?thesis by (auto simp: set_insertBy)
  qed
qed

lemma sorted_jsSort_score: "sorted_wrt (\<lambda>a b. score b \<le> score a) (jsSort cmpScore xs)"
  by (induction xs) (simp_all add: jsSort_def sorted_insertBy_score)

text \<open>An insertion passes only elements of strictly greater score, so the elements of
  one score keep their order.\<close>

lemma filter_insertBy_score:
  "filter (\<lambda>y. score y = s) (insertBy cmpScore x ys) =
     (if score x = s then x # filter (\<lambda>y. score y = s) ys else filter (\<lambda>y. score y = s) ys)"
  by (induction ys) (auto simp: cmpScore_def)

lemma filter_jsSort_score:
  "filter (\<lambda>y. score y = s) (jsSort cmpScore xs) = filter (\<lambda>y. score y = s) xs"
  by (induction xs) (simp_all add: jsSort_def filter_insertBy_score)

text \<open>
  Claim C8. The ranking step returns the rows of the sorted scored candidates. The sorted
  list holds the same candidates, its scores descend, and for every score the candidates
  of that score stand in the order in which they were fetched.
\<close>

theorem ranking_descending_stable:
  "rankRows ps = map row (jsSort cmpScore ps)
   \<and> mset (jsSort cmpScore ps) = mset ps
   \<and> sorted_wrt (\<lambda>a b. score b \<le> score a) (jsSort cmpScore ps)
   \<and> (\<forall>s. filter (\<lambda>x. score x = s) (jsSort cmpScore ps) = filter (\<lambda>x. score x = s) ps)"
  by (simp add: rankRows_def mset_jsSort sorted_jsSort_score filter_jsSort_score)

section \<open>The legacy tier\<close>

lemma fetchFiltered_trace: "QLegacy \<notin> set (fst (fetchFiltered st p w))"
  by (simp add: fetchFiltered_def Let_def split: option.splits)

lemma fetchScoped_trace: "QLegacy \<notin> set (fst (fetchScoped st w rows))"
  by (simp add: fetchScoped_def Let_def split: option.splits)

lemma fetchTenant_trace: "QLegacy \<notin> set (fst (fetchTenant st toks w))"
proof -
  obtain tr1 r1 where f1: "fetchFiltered st (primaryToken toks) w = (tr1, r1)"
    by (cases "fetchFiltered st (primaryToken toks) w")
  have n1: "QLegacy \<notin> set tr1"
    using fetchFiltered_trace [of st "primaryToken toks" w] f1 by simp
  show ?thesis
  proof (cases r1)
    case (Inl e)
    with f1 n1 show ?thesis by (simp add: fetchTenant_def)
  next
    case (Inr rows1)
    obtain tr2 r2 where f2: "fetchScoped st w rows1 = (tr2, r2)"
      by (cases "fetchScoped st w rows1")
    have "QLegacy \<notin> set tr2" using fetchScoped_trace [of st w rows1] f2 by simp
    with f1 n1 Inr f2 show ?thesis by (simp add: fetchTenant_def)
  qed
qed

lemma fetchLegacy_trace: "QLegacy \<in> set (fst (fetchLegacy st toks sp)) \<longleftrightarrow> sp = []"
  by (simp add: fetchLegacy_def Let_def split: option.splits)

lemma positive_empty_iff:
  "positive (scoreList toks rows) = [] \<longleftrightarrow> \<not> (\<exists>r \<in> set rows. 0 < scoreRow toks r)"
  by (auto simp: positive_def scoreList_def filter_empty_conv)

lemma searchFiles_trace:
  "fst (searchFiles st q w l) =
     (case fetchTenant st (normalizeAndTokenize q) w of
        (tr12, Inl e) \<Rightarrow> tr12
      | (tr12, Inr rows) \<Rightarrow>
          tr12 @ fst (fetchLegacy st (normalizeAndTokenize q)
                       (positive (scoreList (normalizeAndTokenize q) rows))))"
  by (simp add: searchFiles_def Let_def split: prod.splits sum.splits)

text \<open>
  Claim C1. In every invocation of the search, the unscoped query is among the queries
  issued exactly when the tenant-scoped fetch returned a candidate set and no row of that
  set has a positive score. So when some tenant-scoped candidate scores positively, or
  a tenant-scoped query fails, no unscoped query is issued.
\<close>

theorem legacy_query_iff_no_positive:
  "QLegacy \<in> set (fst (searchFiles st queryText workspaceId limit)) \<longleftrightarrow>
     (\<exists>rows. snd (fetchTenant st (normalizeAndTokenize queryText) workspaceId) = Inr rows
        \<and> \<not> (\<exists>r \<in> set rows. 0 < scoreRow (normalizeAndTokenize queryText) r))"
proof -
  let ?toks = "normalizeAndTokenize queryText"
  obtain tr12 r12 where ft: "fetchTenant st ?toks workspaceId = (tr12, r12)"
    by (cases "fetchTenant st ?toks workspaceId")
  have n12: "QLegacy \<notin> set tr12"
    using fetchTenant_trace [of st ?toks workspaceId] ft by simp
  show ?thesis
  proof (cases r12)
    case (Inl e)
    with ft n12 show ?thesis by (simp add: searchFiles_trace)
  next
    case (Inr rows)
    with ft n12 show ?thesis
      by (simp add: searchFiles_trace fetchLegacy_trace positive_empty_iff)
  qed
qed

lemma tokens_orca: "normalizeAndTokenize ''orca'' = [''orca'']"
  by code_simp

theorem legacy_query_witness:
  "QLegacy \<in> set (fst (searchFiles legacyStore ''orca'' ''W2'' 10))
   \<and> QLegacy \<notin> set (fst (searchFiles orcaStore ''orca'' ''W1'' 10))"
proof -
  have l: "snd (fetchTenant legacyStore [''orca''] ''W2'') = Inr []"
    by code_simp
  have t: "snd (fetchTenant orcaStore [''orca''] ''W1'') = Inr [orcaRow]"
    by code_simp
  have s: "scoreRow [''orca''] orcaRow = 12"
    by code_simp
  show ?thesis
    using legacy_query_iff_no_positive [of legacyStore "''orca''" "''W2''" 10]
      legacy_query_iff_no_positive [of orcaStore "''orca''" "''W1''" 10]
    by (simp add: tokens_orca l t s)
qed

section \<open>No match is an empty result\<close>

lemma fetchFiltered_ok:
  assumes "\<forall>q \<in> set (fst (fetchFiltered st p w)).
             err (st q) = None \<and> (\<forall>r \<in> set (dataOrEmpty (st q)). scoreRow toks r = 0)"
  shows "\<exists>rows. snd (fetchFiltered st p w) = Inr rows \<and> (\<forall>r \<in> set rows. scoreRow toks r = 0)"
  using assms by (auto simp: fetchFiltered_def Let_def split: option.splits)

lemma fetchScoped_ok:
  assumes "\<forall>q \<in> set (fst (fetchScoped st w rows1)).
             err (st q) = None \<and> (\<forall>r \<in> set (dataOrEmpty (st q)). scoreRow toks r = 0)"
    and "\<forall>r \<in> set rows1. scoreRow toks r = 0"
  shows "\<exists>rows. snd (fetchScoped st w rows1) = Inr rows \<and> (\<forall>r \<in> set rows. scoreRow toks r = 0)"
  using assms by (auto simp: fetchScoped_def Let_def split: option.splits)

lemma fetchTenant_ok:
  assumes a: "\<forall>q \<in> set (fst (fetchTenant st tk w)).
                err (st q) = None \<and> (\<forall>r \<in> set (dataOrEmpty (st q)). scoreRow toks r = 0)"
  shows "\<exists>rows. snd (fetchTenant st tk w) = Inr rows \<and> (\<forall>r \<in> set rows. scoreRow toks r = 0)"
proof -
  obtain tr1 r1 where f1: "fetchFiltered st (primaryToken tk) w = (tr1, r1)"
    by (cases "fetchFiltered st (primaryToken tk) w")
  have sub1: "set tr1 \<subseteq> set (fst (fetchTenant st tk w))"
    using f1 by (auto simp: fetchTenant_def split: sum.splits prod.splits)
  have "\<exists>rows. snd (fetchFiltered st (primaryToken tk) w) = Inr rows
          \<and> (\<forall>r \<in> set rows. scoreRow toks r = 0)"
    by (rule fetchFiltered_ok) (use a sub1 f1 in auto)
  then obtain rows1 where r1: "r1 = Inr rows1" and z1: "\<forall>r \<in> set rows1. scoreRow toks r = 0"
    using f1 by auto
  obtain tr2 r2 where f2: "fetchScoped st w rows1 = (tr2, r2)"
    by (cases "fetchScoped st w rows1")
  have ft: "fetchTenant st tk w = (tr1 @ tr2, r2)"
    using f1 r1 f2 by (simp add: fetchTenant_def)
  have "\<exists>rows. snd (fetchScoped st w rows1) = Inr rows \<and> (\<forall>r \<in> set rows. scoreRow toks r = 0)"
    by (rule fetchScoped_ok) (use a ft f2 z1 in auto)
  with ft f2 show ?thesis by simp
qed

lemma fetchLegacy_ok:
  assumes "\<forall>q \<in> set (fst (fetchLegacy st toks sp)).
             err (st q) = None \<and> (\<forall>r \<in> set (dataOrEmpty (st q)). scoreRow toks r = 0)"
  shows "snd (fetchLegacy st toks sp) = Inr []"
  using assms by (auto simp: fetchLegacy_def Let_def positive_empty_iff split: option.splits)

text \<open>
  Claim C9. When every query the search issues succeeds and no row any of them returns
  has a positive score, the search returns the empty list, not an error.
\<close>

theorem no_match_is_empty:
  assumes a: "\<forall>q \<in> set (fst (searchFiles st queryText workspaceId limit)).
                err (st q) = None
                \<and> (\<forall>r \<in> set (dataOrEmpty (st q)). scoreRow (normalizeAndTokenize queryText) r = 0)"
  shows "snd (searchFiles st queryText workspaceId limit) = Inr []"
proof -
  let ?toks = "normalizeAndTokenize queryText"
  obtain tr12 r12 where ft: "fetchTenant st ?toks workspaceId = (tr12, r12)"
    by (cases "fetchTenant st ?toks workspaceId")
  have sub: "set tr12 \<subseteq> set (fst (searchFiles st queryText workspaceId limit))"
    using ft by (auto simp: searchFiles_def Let_def split: sum.splits prod.splits)
  have "\<exists>rows. snd (fetchTenant st ?toks workspaceId) = Inr rows
          \<and> (\<forall>r \<in> set rows. scoreRow ?toks r = 0)"
    by (rule fetchTenant_ok) (use a sub ft in auto)
  then obtain rows where r12: "r12 = Inr rows" and z: "\<forall>r \<in> set rows. scoreRow ?toks r = 0"
    using ft by auto
  have sp: "positive (scoreList ?toks rows) = []"
    using z by (simp add: positive_empty_iff)
  obtain tr3 r3 where fl: "fetchLegacy st ?toks [] = (tr3, r3)"
    by (cases "fetchLegacy st ?toks []")
  have sub3: "set tr3 \<subseteq> set (fst (searchFiles st queryText workspaceId limit))"
    using ft r12 sp fl by (auto simp: searchFiles_def Let_def split: sum.splits prod.splits)
  have "snd (fetchLegacy st ?toks []) = Inr []"
    by (rule fetchLegacy_ok) (use a sub3 fl in auto)
  with fl have "r3 = Inr []" by simp
  with ft r12 sp fl show ?thesis by (simp add: searchFiles_def)
qed

lemma orcaStore_ok: "err (orcaStore q) = None"
  by (cases q) (simp_all add: orcaStore_def okResponse_def)

theorem no_match_is_empty_witness:
  "fst (searchFiles orcaStore ''homepage'' ''W1'' 10) = [QFiltered ''homepage'' ''W1'', QLegacy]
   \<and> dataOrEmpty (orcaStore (QFiltered ''homepage'' ''W1'')) = [orcaRow]
   \<and> scoreRow (normalizeAndTokenize ''homepage'') orcaRow = 0
   \<and> snd (searchFiles orcaStore ''homepage'' ''W1'' 10) = Inr []"
proof -
  have tr: "fst (searchFiles orcaStore ''homepage'' ''W1'' 10) = [QFiltered ''homepage'' ''W1'', QLegacy]"
    by code_simp
  have d1: "dataOrEmpty (orcaStore (QFiltered ''homepage'' ''W1'')) = [orcaRow]"
    by code_simp
  have d2: "dataOrEmpty (orcaStore QLegacy) = []"
    by code_simp
  have z: "scoreRow (normalizeAndTokenize ''homepage'') orcaRow = 0"
    by code_simp
  have hyp: "\<forall>q \<in> set (fst (searchFiles orcaStore ''homepage'' ''W1'' 10)).
               err (orcaStore q) = None
               \<and> (\<forall>r \<in> set (dataOrEmpty (orcaStore q)).
                     scoreRow (normalizeAndTokenize ''homepage'') r = 0)"
    by (simp add: tr d1 d2 z orcaStore_ok)
  from no_match_is_empty [OF hyp] tr d1 z show ?thesis by simp
qed

section \<open>The dashboard scenario\<close>

lemma searchFiles_positive:
  assumes ft: "snd (fetchTenant st (normalizeAndTokenize q) w) = Inr rows"
    and pos: "positive (scoreList (normalizeAndTokenize q) rows) \<noteq> []"
  shows "snd (searchFiles st q w l) =
           Inr (take l (rankRows (positive (scoreList (normalizeAndTokenize q) rows))))"
proof -
  obtain tr12 where "fetchTenant st (normalizeAndTokenize q) w = (tr12, Inr rows)"
    using ft by (cases "fetchTenant st (normalizeAndTokenize q) w") simp
  with pos show ?thesis
    by (simp add: searchFiles_def fetchLegacy_def Let_def)
qed

text \<open>The sorted list starts with a candidate of the greatest score.\<close>

lemma hd_jsSort_max:
  assumes "x \<in> set ps"
  shows "\<exists>h rest. jsSort cmpScore ps = h # rest \<and> h \<in> set ps \<and> score x \<le> score h"
proof -
  have ne: "jsSort cmpScore ps \<noteq> []"
    using assms set_jsSort [of cmpScore ps] by auto
  then obtain h rest where hr: "jsSort cmpScore ps = h # rest"
    by (cases "jsSort cmpScore ps") auto
  have hin: "h \<in> set ps"
    using hr set_jsSort [of cmpScore ps] by (metis list.set_intros(1))
  have xin: "x \<in> set (h # rest)"
    using assms hr set_jsSort [of cmpScore ps] by simp
  have "sorted_wrt (\<lambda>a b. score b \<le> score a) (h # rest)"
    using sorted_jsSort_score [of ps] hr by simp
  with xin have "score x \<le> score h" by auto
  with hr hin show ?thesis by blast
qed

lemma top_row_first:
  assumes rin: "r0 \<in> set rows"
    and top: "\<forall>r \<in> set rows. r \<noteq> r0 \<longrightarrow> scoreRow toks r < scoreRow toks r0"
    and pos: "0 < scoreRow toks r0"
  shows "\<exists>rest. rankRows (positive (scoreList toks rows)) = r0 # rest"
proof -
  let ?ps = "positive (scoreList toks rows)"
  have xin: "\<lparr>row = r0, score = scoreRow toks r0\<rparr> \<in> set ?ps"
    using rin pos by (auto simp: positive_def scoreList_def)
  from hd_jsSort_max [OF xin] obtain h rest where
    hr: "jsSort cmpScore ?ps = h # rest" and hin: "h \<in> set ?ps"
    and le: "scoreRow toks r0 \<le> score h" by auto
  from hin obtain r where r: "r \<in> set rows" and h: "h = \<lparr>row = r, score = scoreRow toks r\<rparr>"
    by (auto simp: positive_def scoreList_def)
  have "r = r0"
  proof (rule ccontr)
    assume "r \<noteq> r0"
    with top r have "scoreRow toks r < scoreRow toks r0" by simp
    with le h show False by simp
  qed
  with h hr show ?thesis by (simp add: rankRows_def)
qed

lemma orca_tokens:
  "normalizeAndTokenize ''ORCA dashboard mockup'' = [''orca'', ''dashboard'', ''mockup'']"
  by code_simp

lemma orca_score: "scoreRow [''orca'', ''dashboard'', ''mockup''] orcaRow = 28"
  by code_simp

text \<open>
  Claim C3, as the code has it. The query \<open>ORCA dashboard mockup\<close> gives the tokens
  \<open>orca\<close>, \<open>dashboard\<close>, \<open>mockup\<close>. The record named \<open>ORCA Dashboard Mockup v2\<close>, with no
  tags, project or description, scores 28: the name contains each token (8 each) and
  starts with the first only (4). When the tenant-scoped fetch returns it and every other
  row fetched scores less, a search with a positive limit returns it first.
\<close>

theorem orca_scenario:
  assumes ft: "snd (fetchTenant st (normalizeAndTokenize ''ORCA dashboard mockup'') workspaceId)
                 = Inr rows"
    and rin: "orcaRow \<in> set rows"
    and top: "\<forall>r \<in> set rows. r \<noteq> orcaRow
                \<longrightarrow> scoreRow (normalizeAndTokenize ''ORCA dashboard mockup'') r < 28"
    and lim: "0 < limit"
  shows "normalizeAndTokenize ''ORCA dashboard mockup'' = [''orca'', ''dashboard'', ''mockup'']
         \<and> scoreRow (normalizeAndTokenize ''ORCA dashboard mockup'') orcaRow = 28
         \<and> (\<exists>rest. snd (searchFiles st ''ORCA dashboard mockup'' workspaceId limit)
                      = Inr (orcaRow # rest))"
proof -
  let ?q = "''ORCA dashboard mockup''"
  let ?toks = "normalizeAndTokenize ?q"
  have sc: "scoreRow ?toks orcaRow = 28" by (simp only: orca_tokens orca_score)
  have top': "\<forall>r \<in> set rows. r \<noteq> orcaRow \<longrightarrow> scoreRow ?toks r < scoreRow ?toks orcaRow"
    using top sc by simp
  have pos: "0 < scoreRow ?toks orcaRow" using sc by simp
  from top_row_first [OF rin top' pos] obtain rest where
    rk: "rankRows (positive (scoreList ?toks rows)) = orcaRow # rest" by auto
  then have ne: "positive (scoreList ?toks rows) \<noteq> []"
    by (auto simp: rankRows_def jsSort_def)
  obtain k where k: "limit = Suc k" using lim by (cases limit) auto
  have "snd (searchFiles st ?q workspaceId limit) = Inr (orcaRow # take k rest)"
    using searchFiles_positive [OF ft ne, of limit] rk k by simp
  with sc orca_tokens show ?thesis by blast
qed

theorem orca_scenario_witness:
  "snd (fetchTenant orcaStore (normalizeAndTokenize ''ORCA dashboard mockup'') ''W1'')
     = Inr [orcaRow]
   \<and> scoreRow (normalizeAndTokenize ''ORCA dashboard mockup'') orcaRow = 28
   \<and> (\<exists>rest. snd (searchFiles orcaStore ''ORCA dashboard mockup'' ''W1'' 10)
                = Inr (orcaRow # rest))"
proof -
  have ft: "snd (fetchTenant orcaStore (normalizeAndTokenize ''ORCA dashboard mockup'') ''W1'')
              = Inr [orcaRow]"
    by code_simp
  have rin: "orcaRow \<in> set [orcaRow]" by simp
  have top: "\<forall>r \<in> set [orcaRow]. r \<noteq> orcaRow
                \<longrightarrow> scoreRow (normalizeAndTokenize ''ORCA dashboard mockup'') r < 28"
    by simp
  have lim: "0 < (10::nat)" by simp
  from orca_scenario [OF ft rin top lim] ft show ?thesis by blast
qed

text \<open>The score of the scenario is below the 36 of the specification.\<close>

theorem orca_score_counterexample:
  "\<not> 36 \<le> scoreRow (normalizeAndTokenize ''ORCA dashboard mockup'') orcaRow"
  by (simp add: orca_tokens orca_score)

section \<open>The access filter\<close>

lemma canAccess_rule: "canAccess requesterEmail f = passesRule requesterEmail f"
  by (auto simp: canAccess_def passesRule_def openRecord_def unclassified_def truthy_def
      emailPermitted_def permittedEmails_def sameEmail_def list_ex_iff Let_def
      split: option.splits)

text \<open>
  Claim C2. The access filter returns a subsequence of its input, in the input's order,
  holding exactly the records that pass the rule: unclassified, \<open>public\<close> or \<open>company\<close>,
  or with the requester's email in the permitted set, compared without regard to case.
  A record of another classification is not returned when the requester's email is not
  in its permitted set, in particular when no email is supplied; \<open>public\<close>, \<open>company\<close> and
  unclassified records of the input are returned for every requester.
\<close>

theorem access_filter_rule:
  "accessible requesterEmail rs = filter (passesRule requesterEmail) rs
   \<and> subseq (accessible requesterEmail rs) rs
   \<and> (\<forall>f. f \<in> set (accessible requesterEmail rs)
            \<longleftrightarrow> f \<in> set rs \<and> passesRule requesterEmail f)
   \<and> (\<forall>f. \<not> openRecord f \<and> \<not> emailPermitted requesterEmail f
          \<longrightarrow> f \<notin> set (accessible requesterEmail rs))
   \<and> (\<forall>f. \<not> openRecord f \<and> \<not> truthy requesterEmail
          \<longrightarrow> f \<notin> set (accessible requesterEmail rs))
   \<and> (\<forall>f \<in> set rs. openRecord f \<longrightarrow> f \<in> set (accessible requesterEmail rs))"
proof -
  have eq: "accessible requesterEmail rs = filter (passesRule requesterEmail) rs"
    by (simp add: accessible_def canAccess_rule cong: filter_cong)
  have sub: "subseq (accessible requesterEmail rs) rs"
    by (simp add: accessible_def)
  have noemail: "\<not> truthy requesterEmail \<Longrightarrow> \<not> emailPermitted requesterEmail f" for f
    by (simp add: truthy_def emailPermitted_def split: option.splits)
  show ?thesis
    using sub noemail unfolding eq by (auto simp: passesRule_def)
qed

theorem access_filter_witness:
  "\<not> openRecord bobRow
   \<and> \<not> emailPermitted (Some ''Ann@Example.com'') bobRow
   \<and> bobRow \<notin> set (accessible (Some ''Ann@Example.com'') [bobRow, companyRow, annRow])
   \<and> openRecord companyRow
   \<and> companyRow \<in> set (accessible None [bobRow, companyRow, annRow])
   \<and> accessible (Some ''Ann@Example.com'') [bobRow, companyRow, annRow] = [companyRow, annRow]"
proof -
  let ?rs = "[bobRow, companyRow, annRow]"
  note ann = access_filter_rule [of "Some ''Ann@Example.com''" ?rs]
  note nobody = access_filter_rule [of None ?rs]
  have b1: "\<not> openRecord bobRow" by code_simp
  have b2: "\<not> emailPermitted (Some ''Ann@Example.com'') bobRow" by code_simp
  have c1: "openRecord companyRow" by code_simp
  have cin: "companyRow \<in> set ?rs" by simp
  have f: "filter (passesRule (Some ''Ann@Example.com'')) ?rs = [companyRow, annRow]"
    by code_simp
  have "accessible (Some ''Ann@Example.com'') ?rs = filter (passesRule (Some ''Ann@Example.com'')) ?rs"
    using ann by (rule conjunct1)
  then have e1: "accessible (Some ''Ann@Example.com'') ?rs = [companyRow, annRow]"
    by (simp only: f)
  have e2: "bobRow \<notin> set (accessible (Some ''Ann@Example.com'') ?rs)"
    using ann b1 b2 by blast
  have e3: "companyRow \<in> set (accessible None ?rs)"
    using nobody c1 cin by blast
  from b1 b2 e2 c1 e3 e1 show ?thesis by blast
qed

section \<open>Queries made of stopwords\<close>

lemma tokenize_fallback:
  "filter keepToken (map singular (rawWords q)) = [] \<Longrightarrow> normalizeAndTokenize q = rawWords q"
  by (simp add: normalizeAndTokenize_def)

lemma tokenize_empty_iff: "normalizeAndTokenize q = [] \<longleftrightarrow> rawWords q = []"
  by (auto simp: normalizeAndTokenize_def Let_def)

text \<open>
  Claim C7, at the query \<open>this\<close>. Its one raw word is a stopword, yet the tokenizer
  returns \<open>thi\<close>, not the raw word: the trailing \<open>s\<close> is stripped before the stopword
  test, and \<open>thi\<close> is no stopword and has three characters.
\<close>

theorem stopword_query_not_raw:
  "rawWords ''this'' = [''this'']
   \<and> set (rawWords ''this'') \<subseteq> set STOPWORDS
   \<and> normalizeAndTokenize ''this'' = [''thi'']"
  by code_simp

section \<open>The reranker\<close>

lemma rankedOf_None: "rankedOf parsed = None \<longleftrightarrow> parsed = None \<or> parsed = Some JNull"
  by (auto simp: rankedOf_def split: option.splits json.splits)

lemma rankedOf_Some: "v \<noteq> JNull \<Longrightarrow> rankedOf (Some v) = Some (rankedArray v)"
  by (cases v) (auto simp: rankedOf_def rankedArray_def split: option.splits json.splits)

lemma set_addAll: "set (addAll seen xs) = set seen \<union> set xs"
  by (induction xs arbitrary: seen) auto

lemma unique_empty:
  assumes "filter (\<lambda>r. hasIndex r \<and> 0 \<le> entryIndex r \<and> entryIndex r < of_nat n) ranked = []"
  shows "uniqueOf n (rankOrder ranked) = []"
proof -
  have "\<forall>i \<in> set (rankOrder ranked). \<not> (0 \<le> i \<and> i < of_nat n)"
    using assms by (auto simp: rankOrder_def set_jsSort filter_empty_conv)
  then show ?thesis
    by (auto simp: uniqueOf_def filter_empty_conv set_addAll)
qed

lemma missing_Nil: "missing candidates [] = map Some candidates"
proof -
  have "map (\<lambda>i. Some (candidates ! i)) [0 ..< length candidates] =
          map Some (map ((!) candidates) [0 ..< length candidates])"
    by simp
  then show ?thesis by (simp add: missing_def map_nth)
qed

lemma distinct_addAll: "distinct seen \<Longrightarrow> distinct (addAll seen xs)"
  by (induction xs arbitrary: seen) auto

lemma mset_filter_split:
  "mset (filter P xs) + mset (filter (\<lambda>k. \<not> P k) xs) = mset xs"
  by (induction xs) auto

lemma split_positions:
  assumes d: "distinct V" and s: "set V \<subseteq> {0 ..< n}"
  shows "mset (V @ filter (\<lambda>k. k \<notin> set V) [0 ..< n]) = mset [0 ..< n]"
proof -
  have e: "set V = set (filter (\<lambda>k. k \<in> set V) [0 ..< n])" using s by auto
  have "distinct (filter (\<lambda>k. k \<in> set V) [0 ..< n])" by simp
  with d e have "mset V = mset (filter (\<lambda>k. k \<in> set V) [0 ..< n])"
    by (metis set_eq_iff_mset_eq_distinct)
  then have "mset (V @ filter (\<lambda>k. k \<notin> set V) [0 ..< n]) =
               mset (filter (\<lambda>k. k \<in> set V) [0 ..< n])
               + mset (filter (\<lambda>k. k \<notin> set V) [0 ..< n])"
    by (simp only: mset_append)
  also have "\<dots> = mset [0 ..< n]" by (rule mset_filter_split)
  finally show ?thesis .
qed

lemma reorder_integer_indices:
  assumes ints: "\<forall>i \<in> set (rankOrder ranked).
                   0 \<le> i \<and> i < of_nat (length candidates) \<longrightarrow> of_int \<lfloor>i\<rfloor> = i"
  shows "mset (reorder candidates ranked) = mset (map Some candidates)"
proof -
  let ?n = "length candidates"
  let ?U = "uniqueOf ?n (rankOrder ranked)"
  let ?f = "\<lambda>i::rat. nat \<lfloor>i\<rfloor>"
  let ?g = "\<lambda>k. Some (candidates ! k)"
  let ?V = "map ?f ?U"
  have dU: "distinct ?U"
    by (simp add: uniqueOf_def distinct_addAll)
  have inU: "0 \<le> i \<and> i < of_nat ?n \<and> of_int \<lfloor>i\<rfloor> = i" if "i \<in> set ?U" for i
    using that ints by (auto simp: uniqueOf_def set_addAll)
  have ofnat: "of_nat (?f i) = i" if "i \<in> set ?U" for i
  proof -
    from inU [OF that] have nn: "0 \<le> i" and ii: "of_int \<lfloor>i\<rfloor> = i" by auto
    from nn have "0 \<le> \<lfloor>i\<rfloor>" by simp
    then have "(of_nat (nat \<lfloor>i\<rfloor>) :: rat) = of_int \<lfloor>i\<rfloor>" by simp
    with ii show ?thesis by simp
  qed
  have lt: "?f i < ?n" if "i \<in> set ?U" for i
  proof -
    from inU [OF that] have "i < of_nat ?n" by blast
    then have "(of_nat (?f i) :: rat) < of_nat ?n" by (simp only: ofnat [OF that])
    then show ?thesis by (simp only: of_nat_less_iff)
  qed
  have inj: "inj_on ?f (set ?U)"
  proof (rule inj_onI)
    fix i j assume i: "i \<in> set ?U" and j: "j \<in> set ?U" and e: "?f i = ?f j"
    have "i = of_nat (?f i)" by (rule ofnat [OF i, symmetric])
    also have "\<dots> = of_nat (?f j)" by (simp only: e)
    also have "\<dots> = j" by (rule ofnat [OF j])
    finally show "i = j" .
  qed
  have dV: "distinct ?V" using dU inj by (simp add: distinct_map)
  have sV: "set ?V \<subseteq> {0 ..< ?n}" using lt by auto
  have mem: "(of_nat k \<in> set ?U) = (k \<in> set ?V)" for k
  proof
    assume "of_nat k \<in> set ?U"
    then have "?f (of_nat k) \<in> set ?V" by (simp del: floor_of_nat)
    then show "k \<in> set ?V" by simp
  next
    assume "k \<in> set ?V"
    then obtain i where i: "i \<in> set ?U" and k: "k = ?f i" by auto
    have "of_nat k = i" unfolding k by (rule ofnat [OF i])
    with i show "of_nat k \<in> set ?U" by (simp only:)
  qed
  have first: "map (candAt candidates) ?U = map ?g ?V"
    using inU by (auto simp: candAt_def)
  have rest: "missing candidates ?U = map ?g (filter (\<lambda>k. k \<notin> set ?V) [0 ..< ?n])"
    by (simp add: missing_def mem)
  have "reorder candidates ranked = map ?g (?V @ filter (\<lambda>k. k \<notin> set ?V) [0 ..< ?n])"
    unfolding reorder_def Let_def first rest by simp
  then have "mset (reorder candidates ranked) = image_mset ?g (mset [0 ..< ?n])"
    using split_positions [OF dV sV] by (metis mset_map)
  also have "\<dots> = mset (map ?g [0 ..< ?n])" by simp
  also have "map ?g [0 ..< ?n] = map Some candidates"
    using missing_Nil [of candidates] by (simp add: missing_def)
  finally show ?thesis .
qed

text \<open>
  When every index the reply gives within range is an integer, the reranker returns
  candidates only, and all of them when \<open>topK\<close> is at least their number.
\<close>

lemma rerank_integer_indices:
  assumes r: "rankedOf parsed = Some ranked"
    and ints: "\<forall>i \<in> set (rankOrder ranked).
                 0 \<le> i \<and> i < of_nat (length candidates) \<longrightarrow> of_int \<lfloor>i\<rfloor> = i"
  shows "\<exists>out. rerankFilesWithAI hasClient (Inr parsed) candidates topK = Inr out
           \<and> set out \<subseteq> Some ` set candidates
           \<and> (length candidates \<le> topK \<longrightarrow> mset out = mset (map Some candidates))"
proof -
  have m: "mset (reorder candidates ranked) = mset (map Some candidates)"
    by (rule reorder_integer_indices [OF ints])
  then have s: "set (reorder candidates ranked) = Some ` set candidates"
    by (metis mset_eq_setD set_map)
  have l: "length (reorder candidates ranked) = length candidates"
    using m by (metis length_map size_mset)
  have sub: "set (take topK (reorder candidates ranked)) \<subseteq> Some ` set candidates"
    using s set_take_subset [of topK "reorder candidates ranked"] by simp
  have whole: "length candidates \<le> topK
                 \<Longrightarrow> take topK (reorder candidates ranked) = reorder candidates ranked"
    using l by simp
  show ?thesis
  proof (cases "\<not> hasClient \<or> candidates = []")
    case True
    then show ?thesis by (auto simp: rerankFilesWithAI_def)
  next
    case False
    then have "rerankFilesWithAI hasClient (Inr parsed) candidates topK
                 = Inr (take topK (reorder candidates ranked))"
      using r by (simp add: rerankFilesWithAI_def)
    with sub whole m show ?thesis by auto
  qed
qed

text \<open>
  Claim C4, at two candidates, \<open>topK = 2\<close> and the reply
  \<^verbatim>\<open>{"ranked": [{"index": 0.5, "score": 1}]}\<close>. The index 0.5 is a number within range, so
  it is kept; \<open>candidates[0.5]\<close> is \<open>undefined\<close>. The result holds \<open>undefined\<close>, which is no
  candidate, and lacks the second candidate although \<open>topK\<close> is the candidate count.
  The range test is where an integer test is missing: with integer indices the result
  holds candidates only, and all of them (\<open>rerank_integer_indices\<close>).
\<close>

theorem rerank_fraction_index:
  "rerankFilesWithAI True (Inr (Some fractionReply)) [rowA, rowB] 2 = Inr [None, Some rowA]"
  by code_simp

text \<open>
  Claim C5, as the code has it. With a client and a reply that parses to a value other
  than \<open>null\<close>, the result has at most \<open>topK\<close> elements. Without a client, or when the
  reply does not parse or is \<open>null\<close>, the result is the whole candidate list.
\<close>

theorem rerank_length:
  "(hasClient \<and> parsed \<noteq> None \<and> parsed \<noteq> Some JNull
      \<longrightarrow> (\<exists>out. rerankFilesWithAI hasClient (Inr parsed) candidates topK = Inr out
                 \<and> length out \<le> topK))
   \<and> (\<not> hasClient \<or> parsed = None \<or> parsed = Some JNull
      \<longrightarrow> rerankFilesWithAI hasClient (Inr parsed) candidates topK = Inr (map Some candidates))"
proof (intro conjI impI)
  assume a: "hasClient \<and> parsed \<noteq> None \<and> parsed \<noteq> Some JNull"
  then obtain ranked where r: "rankedOf parsed = Some ranked"
    using rankedOf_None [of parsed] by (cases "rankedOf parsed") auto
  show "\<exists>out. rerankFilesWithAI hasClient (Inr parsed) candidates topK = Inr out
          \<and> length out \<le> topK"
  proof (cases "candidates = []")
    case True
    then show ?thesis by (simp add: rerankFilesWithAI_def)
  next
    case False
    with a r show ?thesis by (simp add: rerankFilesWithAI_def)
  qed
next
  assume "\<not> hasClient \<or> parsed = None \<or> parsed = Some JNull"
  then have "\<not> hasClient \<or> rankedOf parsed = None" by (simp add: rankedOf_None)
  then show "rerankFilesWithAI hasClient (Inr parsed) candidates topK = Inr (map Some candidates)"
    by (auto simp: rerankFilesWithAI_def)
qed

theorem rerank_length_witness:
  "(\<exists>out. rerankFilesWithAI True (Inr (Some fractionReply)) [rowA, rowB, rowC] 2 = Inr out
      \<and> length out \<le> 2)
   \<and> rerankFilesWithAI True (Inr None) [rowA, rowB] 1 = Inr (map Some [rowA, rowB])"
proof -
  have n: "Some fractionReply \<noteq> Some JNull" by code_simp
  show ?thesis
    using rerank_length [of True "Some fractionReply" "[rowA, rowB, rowC]" 2]
      rerank_length [of True None "[rowA, rowB]" 1] n
    by simp
qed

text \<open>With a reply that does not parse, two candidates come back for \<open>topK = 1\<close>.\<close>

theorem rerank_unparsed_counterexample:
  "rerankFilesWithAI True (Inr None) [rowA, rowB] 1 = Inr [Some rowA, Some rowB]
   \<and> \<not> length [Some rowA, Some rowB] \<le> (1::nat)"
  by code_simp

text \<open>
  Claim C6, as the code has it. When the reply does not parse, or is \<open>null\<close>, the result
  is the candidate list unchanged. When it parses to another value that has no usable
  ranked entry, the result is the first \<open>topK\<close> candidates in their order. Neither case
  is an error.
\<close>

theorem rerank_malformed:
  "(parsed = None \<or> parsed = Some JNull
      \<longrightarrow> rerankFilesWithAI hasClient (Inr parsed) candidates topK = Inr (map Some candidates))
   \<and> (parsed = Some v \<and> v \<noteq> JNull \<and> usableEntries (length candidates) v = []
      \<longrightarrow> rerankFilesWithAI True (Inr parsed) candidates topK
            = Inr (take topK (map Some candidates)))"
proof (intro conjI impI)
  assume "parsed = None \<or> parsed = Some JNull"
  then have "rankedOf parsed = None" by (simp add: rankedOf_None)
  then show "rerankFilesWithAI hasClient (Inr parsed) candidates topK = Inr (map Some candidates)"
    by (simp add: rerankFilesWithAI_def)
next
  assume a: "parsed = Some v \<and> v \<noteq> JNull \<and> usableEntries (length candidates) v = []"
  then have r: "rankedOf parsed = Some (rankedArray v)" by (simp add: rankedOf_Some)
  have u: "uniqueOf (length candidates) (rankOrder (rankedArray v)) = []"
    using a by (intro unique_empty) (simp add: usableEntries_def)
  have "reorder candidates (rankedArray v) = map Some candidates"
    by (simp add: reorder_def u missing_Nil)
  with r show "rerankFilesWithAI True (Inr parsed) candidates topK
                 = Inr (take topK (map Some candidates))"
    by (cases "candidates = []") (simp_all add: rerankFilesWithAI_def)
qed

theorem rerank_malformed_witness:
  "usableEntries (length [rowA, rowB, rowC]) (JObj []) = []
   \<and> rerankFilesWithAI True (Inr (Some (JObj []))) [rowA, rowB, rowC] 2
       = Inr (take 2 (map Some [rowA, rowB, rowC]))
   \<and> rerankFilesWithAI True (Inr None) [rowA, rowB, rowC] 2 = Inr (map Some [rowA, rowB, rowC])"
proof -
  have u: "usableEntries (length [rowA, rowB, rowC]) (JObj []) = []" by code_simp
  have n: "JObj [] \<noteq> JNull" by simp
  show ?thesis
    using rerank_malformed [of "Some (JObj [])" True "[rowA, rowB, rowC]" 2 "JObj []"]
      rerank_malformed [of None True "[rowA, rowB, rowC]" 2 "JObj []"] u n
    by simp
qed

text \<open>With the reply \<^verbatim>\<open>{}\<close> and \<open>topK = 2\<close>, three candidates come back as two.\<close>

theorem rerank_no_ranked_counterexample:
  "rerankFilesWithAI True (Inr (Some (JObj []))) [rowA, rowB, rowC] 2
     = Inr [Some rowA, Some rowB]
   \<and> [Some rowA, Some rowB] \<noteq> map Some [rowA, rowB, rowC]"
  by code_simp

end
